theory Spec2Isabelle
  imports Main "HOL-Library.Word"
begin

unbundle bit_operations_syntax

section \<open>Constants of the system headers\<close>

definition LOG_INFO :: int where "LOG_INFO = 6"

definition IN_MODIFY :: "32 word" where "IN_MODIFY = 0x00000002"
definition IN_MOVED_FROM :: "32 word" where "IN_MOVED_FROM = 0x00000040"
definition IN_MOVED_TO :: "32 word" where "IN_MOVED_TO = 0x00000080"
definition IN_CREATE :: "32 word" where "IN_CREATE = 0x00000100"
definition IN_DELETE :: "32 word" where "IN_DELETE = 0x00000200"

section \<open>Global state\<close>

text \<open>
  A \<^verbatim>\<open>FILE *\<close> opened for appending: the bytes that have reached the file and the
  bytes still held in the stream's buffer.
\<close>

record stream =
  flushed :: string
  pending :: string



text \<open>The struct \<^verbatim>\<open>watch_dir_t\<close>; \<^verbatim>\<open>time_t\<close> values are integers (seconds).\<close>

record watch_dir_t =
  path :: string
  wd :: int
  last_check :: int

text \<open>
  The global variables of the program. \<open>log_file = None\<close> is the \<^verbatim>\<open>NULL\<close> pointer.
  \<open>periodic_last_check\<close> is the static local \<^verbatim>\<open>last_check\<close> of
  \<^verbatim>\<open>check_directory_changes_periodic\<close>. \<open>syslog_sent\<close> is not a variable of the
  program: it collects the records handed to \<^verbatim>\<open>syslog()\<close>, each with its priority.
\<close>

record globals =
  log_file :: "stream option"
  log_interval :: int
  inotify_fd :: int
  use_syslog :: bool
  watch_dirs :: "watch_dir_t list"
  periodic_last_check :: int
  syslog_sent :: "(int \<times> string) list"

definition initial_globals :: globals where
  "initial_globals =
     \<lparr>log_file = None, log_interval = 5, inotify_fd = - 1, use_syslog = True,
      watch_dirs =
        [\<lparr>path = ''/etc'', wd = - 1, last_check = 0\<rparr>,
         \<lparr>path = ''/var/log'', wd = - 1, last_check = 0\<rparr>,
         \<lparr>path = ''/tmp'', wd = - 1, last_check = 0\<rparr>],
      periodic_last_check = 0, syslog_sent = []\<rparr>"

section \<open>The log writer\<close>





text \<open>
  The callers of \<^verbatim>\<open>log_message\<close> are modelled by the calls they make, in order: the
  user name, the message and the priority of each call.
\<close>

record log_call =
  lc_username :: string
  lc_message :: string
  lc_priority :: int

text \<open>\<^verbatim>\<open>snprintf(msg, n, ...)\<close> keeps at most \<open>n - 1\<close> characters of the formatted text.\<close>

definition snprintf :: "nat \<Rightarrow> string \<Rightarrow> string" where
  "snprintf n s = take (n - 1) s"

section \<open>Event kinds\<close>

text \<open>The chain of tests on \<^verbatim>\<open>event->mask\<close> in \<^verbatim>\<open>check_directory_changes\<close>.\<close>

definition event_type :: "32 word \<Rightarrow> string" where
  "event_type msk =
     (if msk AND IN_CREATE \<noteq> 0 then ''creation''
      else if msk AND IN_DELETE \<noteq> 0 then ''deletion''
      else if msk AND IN_MODIFY \<noteq> 0 then ''modification''
      else if msk AND IN_MOVED_FROM \<noteq> 0 then ''moved from''
      else if msk AND IN_MOVED_TO \<noteq> 0 then ''moved to''
      else ''modification'')"

text \<open>
  The specification's wording of the same: the kinds in their fixed precedence order, the
  first one whose bit is set being reported.
\<close>

definition kind_precedence :: "(32 word \<times> string) list" where
  "kind_precedence =
     [(IN_CREATE, ''creation''), (IN_DELETE, ''deletion''), (IN_MODIFY, ''modification''),
      (IN_MOVED_FROM, ''moved from''), (IN_MOVED_TO, ''moved to'')]"

definition first_matching_kind :: "32 word \<Rightarrow> string option" where
  "first_matching_kind msk =
     map_option snd (find (\<lambda>(b, name). msk AND b \<noteq> 0) kind_precedence)"

section \<open>The fallback poll\<close>

text \<open>
  \<^verbatim>\<open>stat(path, &st)\<close> as a function of the path: \<open>Some\<close> of \<^verbatim>\<open>st.st_mtime\<close> when
  the call returns 0, \<open>None\<close> otherwise.
\<close>

type_synonym stat_t = "string \<Rightarrow> int option"

definition MAX_PATH_LEN :: nat where "MAX_PATH_LEN = 512"

text \<open>
  The body of the loop of \<^verbatim>\<open>check_directory_changes_periodic\<close> for one entry of
  \<^verbatim>\<open>watch_dirs\<close>: the entry afterwards and the calls of \<^verbatim>\<open>log_message\<close> made.
\<close>

definition periodic_dir :: "string \<Rightarrow> stat_t \<Rightarrow> watch_dir_t \<Rightarrow> watch_dir_t \<times> log_call list" where
  "periodic_dir username stat d =
     (case stat (path d) of
        None \<Rightarrow> (d, [])
      | Some st_mtime \<Rightarrow>
          if path d = ''/var/log'' \<and>
             (case stat (snprintf (MAX_PATH_LEN + 32) (path d @ ''/system_logger.log'')) of
                Some log_mtime \<Rightarrow> st_mtime = log_mtime \<and> last_check d > 0
              | None \<Rightarrow> False)
          then (d\<lparr>last_check := st_mtime\<rparr>, [])
          else (d\<lparr>last_check := st_mtime\<rparr>,
                if last_check d > 0 \<and> st_mtime > last_check d
                then [\<lparr>lc_username = username,
                       lc_message = snprintf 1024 (''Changes detected in directory: '' @ path d),
                       lc_priority = LOG_INFO\<rparr>]
                else []))"

text \<open>
  The loop over \<^verbatim>\<open>watch_dirs\<close>. The file system may change while the loop runs (the
  log writer itself appends to the log file), so iteration \<open>i\<close> sees \<open>fs i\<close>.
\<close>

fun periodic_loop ::
  "string \<Rightarrow> (nat \<Rightarrow> stat_t) \<Rightarrow> nat \<Rightarrow> watch_dir_t list \<Rightarrow> watch_dir_t list \<times> log_call list" where
  "periodic_loop username fs i [] = ([], [])"
| "periodic_loop username fs i (d # ds) =
     (let (d', out) = periodic_dir username (fs i) d;
          (ds', outs) = periodic_loop username fs (Suc i) ds
      in (d' # ds', out @ outs))"

definition check_directory_changes_periodic ::
  "globals \<Rightarrow> string \<Rightarrow> int \<Rightarrow> (nat \<Rightarrow> stat_t) \<Rightarrow> globals \<times> log_call list" where
  "check_directory_changes_periodic g username now fs =
     (if now - periodic_last_check g < 30 then (g, [])
      else (let (ds, out) = periodic_loop username fs 0 (watch_dirs g)
            in (g\<lparr>periodic_last_check := now, watch_dirs := ds\<rparr>, out)))"

section \<open>The configuration file\<close>


definition NUL :: char where "NUL = CHR 0x00"


text \<open>A C string stored in an array of characters: the characters before the first NUL.\<close>

definition c_str :: "string \<Rightarrow> string" where
  "c_str bytes = takeWhile (\<lambda>c. c \<noteq> NUL) bytes"

















section \<open>The event decoder\<close>

text \<open>
  \<^verbatim>\<open>struct inotify_event\<close> is declared in \<^verbatim>\<open><sys/inotify.h>\<close>: the fields
  \<^verbatim>\<open>int wd\<close>, \<^verbatim>\<open>uint32_t mask\<close>, \<^verbatim>\<open>uint32_t cookie\<close>, \<^verbatim>\<open>uint32_t len\<close> at
  offsets 0, 4, 8 and 12, and the flexible array \<^verbatim>\<open>char name[]\<close> at offset 16, so that
  \<^verbatim>\<open>sizeof(struct inotify_event)\<close> is 16. The fields are read in little-endian byte
  order.
\<close>

definition sizeof_inotify_event :: int where "sizeof_inotify_event = 16"

definition u32_at :: "string \<Rightarrow> nat \<Rightarrow> 32 word" where
  "u32_at buffer off =
     word_of_nat (of_char (buffer ! off) + 256 * of_char (buffer ! (off + 1))
       + 65536 * of_char (buffer ! (off + 2)) + 16777216 * of_char (buffer ! (off + 3)))"

record inotify_event =
  ev_wd :: int
  ev_mask :: "32 word"
  ev_cookie :: "32 word"
  ev_len :: "32 word"

text \<open>
  \<open>buffer\<close> holds the bytes that \<^verbatim>\<open>read\<close> returned, so \<open>length buffer\<close> is the
  variable \<^verbatim>\<open>length\<close> of the source. The source reads through the pointer
  \<^verbatim>\<open>&buffer[i]\<close> without a test; a read outside these bytes is an error of the model.
\<close>

datatype decode_error = ReadBeforeBuffer | ReadPastLength

definition event_at :: "string \<Rightarrow> int \<Rightarrow> decode_error + inotify_event" where
  "event_at buffer i =
     (if i < 0 then Inl ReadBeforeBuffer
      else if int (length buffer) < i + sizeof_inotify_event then Inl ReadPastLength
      else Inr \<lparr>ev_wd = sint (u32_at buffer (nat i)),
                ev_mask = u32_at buffer (nat i + 4),
                ev_cookie = u32_at buffer (nat i + 8),
                ev_len = u32_at buffer (nat i + 12)\<rparr>)"

text \<open>
  \<^verbatim>\<open>event->name\<close> read as a C string by \<^verbatim>\<open>strcmp\<close> and \<^verbatim>\<open>snprintf\<close>: the
  characters from offset \<open>i + 16\<close> up to the first NUL.
\<close>

definition event_name :: "string \<Rightarrow> int \<Rightarrow> decode_error + string" where
  "event_name buffer i =
     (let bytes = drop (nat (i + sizeof_inotify_event)) buffer
      in if NUL \<in> set bytes then Inr (c_str bytes) else Inl ReadPastLength)"

text \<open>The body of the \<^verbatim>\<open>if (watch_dirs[j].wd == event->wd)\<close> statement.\<close>

definition report_event ::
  "string \<Rightarrow> string \<Rightarrow> int \<Rightarrow> inotify_event \<Rightarrow> watch_dir_t \<Rightarrow> decode_error + log_call list" where
  "report_event username buffer i event d =
     (if 0 < ev_len event then
        (case event_name buffer i of
           Inl e \<Rightarrow> Inl e
         | Inr name \<Rightarrow>
             if name = ''system_logger.log'' then Inr []
             else Inr [\<lparr>lc_username = username,
                        lc_message = snprintf 1024
                          (path d @ '': '' @ event_type (ev_mask event) @ '' of file '' @ name),
                        lc_priority = LOG_INFO\<rparr>])
      else Inr [\<lparr>lc_username = username,
                 lc_message = snprintf 1024 (path d @ '': '' @ event_type (ev_mask event)),
                 lc_priority = LOG_INFO\<rparr>])"

text \<open>The loop over \<^verbatim>\<open>j\<close>: the first entry whose \<^verbatim>\<open>wd\<close> matches ends it.\<close>

fun scan_watch_dirs ::
  "string \<Rightarrow> string \<Rightarrow> int \<Rightarrow> inotify_event \<Rightarrow> watch_dir_t list \<Rightarrow> decode_error + log_call list" where
  "scan_watch_dirs username buffer i event [] = Inr []"
| "scan_watch_dirs username buffer i event (d # ds) =
     (if wd d = ev_wd event then report_event username buffer i event d
      else scan_watch_dirs username buffer i event ds)"

text \<open>
  \<^verbatim>\<open>i += sizeof(struct inotify_event) + event->len\<close>, where \<^verbatim>\<open>i\<close> is an \<^verbatim>\<open>int\<close>:
  the sum is converted back to 32 bits.
\<close>

definition next_offset :: "int \<Rightarrow> inotify_event \<Rightarrow> int" where
  "next_offset i event =
     sint (word_of_int (i + sizeof_inotify_event + uint (ev_len event)) :: 32 word)"

text \<open>
  The loop \<^verbatim>\<open>while (i < length)\<close>. \<open>None\<close> is a loop that does not end; \<open>out\<close>
  collects the calls of \<^verbatim>\<open>log_message\<close>.
\<close>

partial_function (option) event_loop ::
  "string \<Rightarrow> watch_dir_t list \<Rightarrow> string \<Rightarrow> int \<Rightarrow> log_call list
     \<Rightarrow> (decode_error + log_call list) option" where
  "event_loop username dirs buffer i out =
     (if i < int (length buffer) then
        (case event_at buffer i of
           Inl e \<Rightarrow> Some (Inl e)
         | Inr event \<Rightarrow>
             (case scan_watch_dirs username buffer i event dirs of
                Inl e \<Rightarrow> Some (Inl e)
              | Inr calls \<Rightarrow>
                  event_loop username dirs buffer (next_offset i event) (out @ calls)))
      else Some (Inr out))"

declare event_loop.simps [code]

text \<open>
  What \<^verbatim>\<open>select\<close> and \<^verbatim>\<open>read\<close> find on the notification channel: nothing to
  read, a failed read, or the bytes of the pending events.
\<close>

datatype inotify_input = NotReady | ReadFailed | ReadBytes string

definition check_directory_changes ::
  "globals \<Rightarrow> string \<Rightarrow> inotify_input \<Rightarrow> (decode_error + log_call list) option" where
  "check_directory_changes g username input =
     (if inotify_fd g < 0 then Some (Inr [])
      else (case input of
              NotReady \<Rightarrow> Some (Inr [])
            | ReadFailed \<Rightarrow> Some (Inr [])
            | ReadBytes bytes \<Rightarrow>
                (let buffer = take 4096 bytes
                 in if 0 < length buffer
                    then event_loop username (watch_dirs g) buffer 0 []
                    else Some (Inr []))))"

subsection \<open>Well-formed event records\<close>

text \<open>
  A record as the kernel writes it: the header and the name field, which is empty or holds
  the name followed by at least one NUL.
\<close>

record raw_event =
  r_wd :: "32 word"
  r_mask :: "32 word"
  r_cookie :: "32 word"
  r_name :: string

definition enc32 :: "32 word \<Rightarrow> string" where
  "enc32 w =
     [char_of (unat w), char_of (unat w div 256), char_of (unat w div 65536),
      char_of (unat w div 16777216)]"

definition encode_event :: "raw_event \<Rightarrow> string" where
  "encode_event r =
     enc32 (r_wd r) @ enc32 (r_mask r) @ enc32 (r_cookie r)
       @ enc32 (word_of_nat (length (r_name r))) @ r_name r"

definition well_formed :: "raw_event \<Rightarrow> bool" where
  "well_formed r = (r_name r = [] \<or> NUL \<in> set (r_name r))"

text \<open>
  The calls of \<^verbatim>\<open>log_message\<close> expected for one record: none when no entry of
  \<^verbatim>\<open>watch_dirs\<close> has its \<^verbatim>\<open>wd\<close> or when the name is that of the log file, else one
  that names the directory, the kind and the name.
\<close>

definition expected_calls :: "string \<Rightarrow> watch_dir_t list \<Rightarrow> raw_event \<Rightarrow> log_call list" where
  "expected_calls username dirs r =
     (case find (\<lambda>d. wd d = sint (r_wd r)) dirs of
        None \<Rightarrow> []
      | Some d \<Rightarrow>
          if r_name r = [] then
            [\<lparr>lc_username = username,
              lc_message = snprintf 1024 (path d @ '': '' @ event_type (r_mask r)),
              lc_priority = LOG_INFO\<rparr>]
          else if c_str (r_name r) = ''system_logger.log'' then []
          else
            [\<lparr>lc_username = username,
              lc_message = snprintf 1024
                (path d @ '': '' @ event_type (r_mask r) @ '' of file '' @ c_str (r_name r)),
              lc_priority = LOG_INFO\<rparr>])"

subsection \<open>Installing the watches\<close>

text \<open>
  \<^verbatim>\<open>init_directory_monitoring\<close>. \<open>fd\<close> is what \<^verbatim>\<open>inotify_init\<close> returns,
  \<open>inotify_add_watch\<close> gives the handle for a path (negative when the watch cannot be
  installed), and \<open>clock i\<close> is what \<^verbatim>\<open>time(NULL)\<close> returns in iteration \<open>i\<close>.
\<close>

fun add_watches ::
  "(string \<Rightarrow> int) \<Rightarrow> (nat \<Rightarrow> int) \<Rightarrow> nat \<Rightarrow> watch_dir_t list \<Rightarrow> watch_dir_t list" where
  "add_watches inotify_add_watch clock i [] = []"
| "add_watches inotify_add_watch clock i (d # ds) =
     (if 0 \<le> inotify_add_watch (path d)
      then d\<lparr>wd := inotify_add_watch (path d), last_check := clock i\<rparr>
      else d)
       # add_watches inotify_add_watch clock (Suc i) ds"

definition init_directory_monitoring ::
  "globals \<Rightarrow> int \<Rightarrow> (string \<Rightarrow> int) \<Rightarrow> (nat \<Rightarrow> int) \<Rightarrow> globals \<times> int" where
  "init_directory_monitoring g fd inotify_add_watch clock =
     (if fd < 0 then (g\<lparr>inotify_fd := fd\<rparr>, - 1)
      else (g\<lparr>inotify_fd := fd,
               watch_dirs := add_watches inotify_add_watch clock 0 (watch_dirs g)\<rparr>, 0))"

text \<open>
  The globals when the notification channel is descriptor 3 and the three watches were
  given the handles 1, 2 and 7 at time 1000.
\<close>

definition watching :: globals where
  "watching =
     initial_globals
       \<lparr>inotify_fd := 3,
        watch_dirs :=
          [\<lparr>path = ''/etc'', wd = 1, last_check = 1000\<rparr>,
           \<lparr>path = ''/var/log'', wd = 2, last_check = 1000\<rparr>,
           \<lparr>path = ''/tmp'', wd = 7, last_check = 1000\<rparr>]\<rparr>"

section \<open>Properties of the log writer\<close>


section \<open>Properties of the event kinds\<close>

text \<open>
  C3. The kind reported for an event mask is the first of created, deleted, modified,
  moved-from, moved-to whose bit is set in the mask (and "modification" when none is); in
  particular a mask with the created bit set is reported as a creation, whatever other
  bits are set.
\<close>

theorem event_type_precedence:
  "event_type msk =
     (case first_matching_kind msk of Some kind \<Rightarrow> kind | None \<Rightarrow> ''modification'')
   \<and> (msk AND IN_CREATE \<noteq> 0 \<longrightarrow> event_type msk = ''creation'')"
  by (simp add: event_type_def first_matching_kind_def kind_precedence_def)

theorem event_type_precedence_witness:
  "(IN_CREATE OR IN_MODIFY) AND IN_CREATE \<noteq> 0
   \<and> (IN_CREATE OR IN_MODIFY) AND IN_MODIFY \<noteq> 0
   \<and> first_matching_kind (IN_CREATE OR IN_MODIFY) = Some ''creation''
   \<and> event_type (IN_CREATE OR IN_MODIFY) = ''creation''"
  using event_type_precedence [of "IN_CREATE OR IN_MODIFY"]
  by (simp add: IN_CREATE_def IN_MODIFY_def first_matching_kind_def kind_precedence_def)

section \<open>Properties of the fallback poll\<close>

lemma log_path_var_log:
  "snprintf (MAX_PATH_LEN + 32) (''/var/log'' @ ''/system_logger.log'')
     = ''/var/log/system_logger.log''"
  by (simp add: snprintf_def MAX_PATH_LEN_def)

lemma periodic_dir_None:
  "stat (path d) = None \<Longrightarrow> periodic_dir username stat d = (d, [])"
  by (simp add: periodic_dir_def)

lemma periodic_dir_Some:
  "stat (path d) = Some m \<Longrightarrow>
   periodic_dir username stat d =
     (d\<lparr>last_check := m\<rparr>,
      if last_check d > 0 \<and> m > last_check d
         \<and> \<not> (path d = ''/var/log'' \<and> stat ''/var/log/system_logger.log'' = Some m)
      then [\<lparr>lc_username = username,
             lc_message = snprintf 1024 (''Changes detected in directory: '' @ path d),
             lc_priority = LOG_INFO\<rparr>]
      else [])"
  using log_path_var_log
  by (auto simp: periodic_dir_def split: option.splits)

text \<open>
  The loop applies \<open>periodic_dir\<close> to every entry of \<^verbatim>\<open>watch_dirs\<close>, in order, and
  makes the calls of each in turn.
\<close>

lemma periodic_loop_length:
  "length (fst (periodic_loop username fs i ds)) = length ds"
  by (induction ds arbitrary: i) (simp_all add: case_prod_beta)

lemma periodic_loop_nth:
  "k < length ds \<Longrightarrow>
   fst (periodic_loop username fs i ds) ! k
     = fst (periodic_dir username (fs (i + k)) (ds ! k))"
proof (induction ds arbitrary: i k)
  case Nil
  then show ?case by simp
next
  case (Cons d ds)
  show ?case
  proof (cases k)
    case 0
    then show ?thesis by (simp add: case_prod_beta)
  next
    case (Suc j)
    with Cons.prems have "j < length ds" by simp
    from Cons.IH [OF this, of "Suc i"] show ?thesis
      using Suc by (simp add: case_prod_beta)
  qed
qed

lemma periodic_loop_calls:
  "snd (periodic_loop username fs i ds) =
     concat (map (\<lambda>(k, d). snd (periodic_dir username (fs k) d)) (enumerate i ds))"
  by (induction ds arbitrary: i) (simp_all add: case_prod_beta)

text \<open>
  C4, as the claim states it, fails: for the entry \<open>/var/log\<close> with stored time 100,
  when the directory and the log file inside it both have modification time 200, the
  current time is obtained, is greater than the stored one, the stored one is greater
  than 0, and still no record is emitted.
\<close>

theorem periodic_dir_report_counterexample:
  "[''/var/log'' \<mapsto> 200, ''/var/log/system_logger.log'' \<mapsto> 200] ''/var/log''
     = Some (200 :: int)
   \<and> (200 :: int) > last_check \<lparr>path = ''/var/log'', wd = 2, last_check = 100\<rparr>
   \<and> last_check \<lparr>path = ''/var/log'', wd = 2, last_check = 100\<rparr> > 0
   \<and> snd (periodic_dir ''root''
            [''/var/log'' \<mapsto> 200, ''/var/log/system_logger.log'' \<mapsto> 200]
            \<lparr>path = ''/var/log'', wd = 2, last_check = 100\<rparr>) = []"
  by (simp add: periodic_dir_def snprintf_def MAX_PATH_LEN_def)

text \<open>
  C4, amended. For a watch target whose current modification time \<open>m\<close> is obtained, one
  record at info severity naming the directory as changed is emitted if and only if
  \<open>m\<close> is greater than the stored time, the stored time is greater than 0, and the
  self-noise rule does not apply (it applies to the target \<open>/var/log\<close> when the
  modification time of the log file is obtained and equals \<open>m\<close>); the stored time
  becomes \<open>m\<close> in every case.
\<close>

theorem periodic_dir_report_rule:
  "stat (path d) = Some m \<Longrightarrow>
   periodic_dir username stat d =
     (d\<lparr>last_check := m\<rparr>,
      if last_check d > 0 \<and> m > last_check d
         \<and> \<not> (path d = ''/var/log'' \<and> stat ''/var/log/system_logger.log'' = Some m)
      then [\<lparr>lc_username = username,
             lc_message = snprintf 1024 (''Changes detected in directory: '' @ path d),
             lc_priority = LOG_INFO\<rparr>]
      else [])"
  by (rule periodic_dir_Some)

theorem periodic_dir_report_rule_witness:
  "periodic_dir ''root'' [''/tmp'' \<mapsto> 200] \<lparr>path = ''/tmp'', wd = 3, last_check = 100\<rparr> =
     (\<lparr>path = ''/tmp'', wd = 3, last_check = 200\<rparr>,
      [\<lparr>lc_username = ''root'', lc_message = ''Changes detected in directory: /tmp'',
        lc_priority = 6\<rparr>])"
  using periodic_dir_report_rule
    [of "[''/tmp'' \<mapsto> 200]" "\<lparr>path = ''/tmp'', wd = 3, last_check = 100\<rparr>" 200 "''root''"]
  by (simp add: snprintf_def LOG_INFO_def)

text \<open>
  C5. For the watch target \<open>/var/log\<close>, the directory of the log file: when the
  directory's modification time \<open>m\<close> equals that of the log file and the stored time is
  greater than 0, no record is emitted and the stored time becomes \<open>m\<close>.
\<close>

theorem periodic_dir_self_noise:
  "path d = ''/var/log'' \<Longrightarrow> stat ''/var/log'' = Some m
   \<Longrightarrow> stat ''/var/log/system_logger.log'' = Some m \<Longrightarrow> last_check d > 0
   \<Longrightarrow> periodic_dir username stat d = (d\<lparr>last_check := m\<rparr>, [])"
  using log_path_var_log
  by (simp add: periodic_dir_def)

theorem periodic_dir_self_noise_witness:
  "periodic_dir ''root'' [''/var/log'' \<mapsto> 300, ''/var/log/system_logger.log'' \<mapsto> 300]
     \<lparr>path = ''/var/log'', wd = 2, last_check = 250\<rparr>
   = (\<lparr>path = ''/var/log'', wd = 2, last_check = 300\<rparr>, [])"
  using periodic_dir_self_noise
    [of "\<lparr>path = ''/var/log'', wd = 2, last_check = 250\<rparr>"
        "[''/var/log'' \<mapsto> 300, ''/var/log/system_logger.log'' \<mapsto> 300]" 300 "''root''"]
  by simp

text \<open>
  C6. When a watch target has been observed by one pass, and the next pass finds the same
  result of \<^verbatim>\<open>stat\<close> for its directory, the second observation makes no call of the
  log writer and leaves the entry, its stored time included, as it was.
\<close>

theorem periodic_dir_idempotent:
  "periodic_dir username stat1 d = (d1, out1) \<Longrightarrow> stat2 (path d) = stat1 (path d)
   \<Longrightarrow> periodic_dir username stat2 d1 = (d1, [])
       \<and> last_check (fst (periodic_dir username stat2 d1)) = last_check d1"
proof (cases "stat1 (path d)")
  case None
  assume first: "periodic_dir username stat1 d = (d1, out1)"
    and same: "stat2 (path d) = stat1 (path d)"
  from first None have "d1 = d"
    by (simp add: periodic_dir_None)
  with same None show ?thesis
    by (simp add: periodic_dir_None)
next
  case (Some m)
  assume first: "periodic_dir username stat1 d = (d1, out1)"
    and same: "stat2 (path d) = stat1 (path d)"
  from first Some have d1: "d1 = d\<lparr>last_check := m\<rparr>"
    by (simp add: periodic_dir_Some)
  then have "stat2 (path d1) = Some m"
    using same Some by simp
  from periodic_dir_Some [of stat2 d1 m username, OF this] d1 show ?thesis
    by simp
qed

theorem periodic_dir_idempotent_witness:
  "periodic_dir ''root'' [''/tmp'' \<mapsto> 200] \<lparr>path = ''/tmp'', wd = 3, last_check = 100\<rparr>
     = (\<lparr>path = ''/tmp'', wd = 3, last_check = 200\<rparr>,
        [\<lparr>lc_username = ''root'', lc_message = ''Changes detected in directory: /tmp'',
          lc_priority = 6\<rparr>])
   \<and> periodic_dir ''root'' [''/tmp'' \<mapsto> 200, ''/etc'' \<mapsto> 777]
        \<lparr>path = ''/tmp'', wd = 3, last_check = 200\<rparr>
     = (\<lparr>path = ''/tmp'', wd = 3, last_check = 200\<rparr>, [])"
proof -
  have first: "periodic_dir ''root'' [''/tmp'' \<mapsto> 200]
      \<lparr>path = ''/tmp'', wd = 3, last_check = 100\<rparr>
    = (\<lparr>path = ''/tmp'', wd = 3, last_check = 200\<rparr>,
       [\<lparr>lc_username = ''root'', lc_message = ''Changes detected in directory: /tmp'',
         lc_priority = 6\<rparr>])"
    by (simp add: periodic_dir_def snprintf_def LOG_INFO_def)
  have same: "[''/tmp'' \<mapsto> 200, ''/etc'' \<mapsto> 777]
      (path \<lparr>path = ''/tmp'', wd = 3, last_check = 100\<rparr>)
    = [''/tmp'' \<mapsto> (200 :: int)] (path \<lparr>path = ''/tmp'', wd = 3, last_check = 100\<rparr>)"
    by simp
  from periodic_dir_idempotent
    [of "''root''" "[''/tmp'' \<mapsto> 200]" "\<lparr>path = ''/tmp'', wd = 3, last_check = 100\<rparr>"
        "\<lparr>path = ''/tmp'', wd = 3, last_check = 200\<rparr>"
        "[\<lparr>lc_username = ''root'', lc_message = ''Changes detected in directory: /tmp'',
           lc_priority = 6\<rparr>]"
        "[''/tmp'' \<mapsto> 200, ''/etc'' \<mapsto> 777]", OF first same]
    first
  show ?thesis by simp
qed

text \<open>
  C7. The pass compares modification times only when at least 30 seconds lie between the
  time of the call and the static time stamp of the last pass that ran; a call that comes
  earlier returns without any change of state and without a record. A call that runs sets
  the time stamp to its own time and runs the loop over the watch targets. So when a call
  has run, a second call at most 29 seconds later is a no-op.
\<close>

theorem periodic_rate_limit:
  "(now - periodic_last_check g < 30 \<longrightarrow>
      check_directory_changes_periodic g username now fs = (g, []))
   \<and> (30 \<le> now - periodic_last_check g \<longrightarrow>
      check_directory_changes_periodic g username now fs =
        (g\<lparr>periodic_last_check := now,
           watch_dirs := fst (periodic_loop username fs 0 (watch_dirs g))\<rparr>,
         snd (periodic_loop username fs 0 (watch_dirs g))))
   \<and> (30 \<le> now - periodic_last_check g \<and> now' - now \<le> 29 \<longrightarrow>
      check_directory_changes_periodic
        (fst (check_directory_changes_periodic g username now fs)) username now' fs' =
        (fst (check_directory_changes_periodic g username now fs), []))"
  by (auto simp: check_directory_changes_periodic_def split: prod.splits)

theorem periodic_rate_limit_witness:
  "(30 :: int) \<le> 1000 - periodic_last_check initial_globals
   \<and> (1029 :: int) - 1000 \<le> 29
   \<and> periodic_last_check
       (fst (check_directory_changes_periodic initial_globals ''root'' 1000 (\<lambda>i. Map.empty)))
       = 1000
   \<and> check_directory_changes_periodic
        (fst (check_directory_changes_periodic initial_globals ''root'' 1000 (\<lambda>i. Map.empty)))
        ''root'' 1029 (\<lambda>i. [''/tmp'' \<mapsto> 5000])
       = (fst (check_directory_changes_periodic initial_globals ''root'' 1000
                (\<lambda>i. Map.empty)), [])"
proof -
  have ran: "(30 :: int) \<le> 1000 - periodic_last_check initial_globals"
    by (simp add: initial_globals_def)
  have soon: "(1029 :: int) - 1000 \<le> 29"
    by simp
  note rule = periodic_rate_limit
    [of 1000 initial_globals "''root''" "\<lambda>i. Map.empty" 1029 "\<lambda>i. [''/tmp'' \<mapsto> 5000]"]
  from rule ran have
    "periodic_last_check
       (fst (check_directory_changes_periodic initial_globals ''root'' 1000 (\<lambda>i. Map.empty)))
     = 1000"
    by simp
  moreover from rule ran soon have
    "check_directory_changes_periodic
       (fst (check_directory_changes_periodic initial_globals ''root'' 1000 (\<lambda>i. Map.empty)))
       ''root'' 1029 (\<lambda>i. [''/tmp'' \<mapsto> 5000])
     = (fst (check_directory_changes_periodic initial_globals ''root'' 1000
              (\<lambda>i. Map.empty)), [])"
    by blast
  ultimately show ?thesis using ran soon by blast
qed

section \<open>Properties of the configuration reader\<close>










lemma sint32: "- (2 ^ 31) \<le> k \<Longrightarrow> k < 2 ^ 31 \<Longrightarrow> sint (word_of_int k :: 32 word) = k"
  by (simp add: int_word_sint)


















section \<open>Properties of the event decoder\<close>

text \<open>The state \<open>watching\<close> is one that \<^verbatim>\<open>init_directory_monitoring\<close> produces.\<close>

lemma watching_installed:
  "init_directory_monitoring initial_globals 3
     (\<lambda>p. if p = ''/etc'' then 1 else if p = ''/var/log'' then 2 else 7) (\<lambda>i. 1000)
   = (watching, 0)"
  by (simp add: init_directory_monitoring_def watching_def initial_globals_def)

subsection \<open>Reading an encoded record back\<close>

lemma bytes_sum:
  assumes "(x::nat) < 2 ^ 32"
  shows "x mod 256 + 256 * (x div 256 mod 256) + 65536 * (x div 65536 mod 256)
     + 16777216 * (x div 16777216 mod 256) = x"
proof -
  define a b c where "a = x div 256" and "b = a div 256" and "c = b div 256"
  have xb: "x div 65536 = b"
    unfolding a_def b_def by (simp add: div_mult2_eq [symmetric])
  have xc: "x div 16777216 = c"
    unfolding a_def b_def c_def by (simp add: div_mult2_eq [symmetric])
  have "c < 256"
    using assms unfolding xc [symmetric] by simp
  then have c: "c mod 256 = c" by simp
  have x: "x = 256 * a + x mod 256" unfolding a_def by simp
  have a: "a = 256 * b + a mod 256" unfolding b_def by simp
  have b: "b = 256 * c + b mod 256" unfolding c_def by simp
  have "x mod 256 + 256 * (a mod 256) + 65536 * (b mod 256) + 16777216 * (c mod 256) = x"
    unfolding c using x a b by linarith
  then show ?thesis
    unfolding xb xc a_def [symmetric] .
qed

lemma u32_at_enc32:
  "u32_at (pre @ enc32 w @ post) (length pre) = w"
proof -
  have lt: "unat w < 2 ^ 32"
    using unsigned_less [of w] by simp
  have n0: "(pre @ enc32 w @ post) ! length pre = char_of (unat w)"
    and n1: "(pre @ enc32 w @ post) ! (length pre + 1) = char_of (unat w div 256)"
    and n2: "(pre @ enc32 w @ post) ! (length pre + 2) = char_of (unat w div 65536)"
    and n3: "(pre @ enc32 w @ post) ! (length pre + 3) = char_of (unat w div 16777216)"
    by (simp_all add: enc32_def nth_append)
  have "u32_at (pre @ enc32 w @ post) (length pre) = word_of_nat (unat w)"
    unfolding u32_at_def n0 n1 n2 n3 of_char_of bytes_sum [OF lt] ..
  then show ?thesis by simp
qed

lemma length_enc32: "length (enc32 w) = 4"
  by (simp add: enc32_def)

lemma length_encode_event: "length (encode_event r) = 16 + length (r_name r)"
  by (simp add: encode_event_def length_enc32)



lemma uint32: "n < 2 ^ 32 \<Longrightarrow> uint (word_of_nat n :: 32 word) = int n"
  by (simp add: uint_nat unat_of_nat)

lemma event_at_encoded:
  "event_at (pre @ encode_event r @ post) (int (length pre)) =
     Inr \<lparr>ev_wd = sint (r_wd r), ev_mask = r_mask r, ev_cookie = r_cookie r,
          ev_len = word_of_nat (length (r_name r))\<rparr>"
proof -
  let ?buf = "pre @ encode_event r @ post"
  let ?len = "word_of_nat (length (r_name r)) :: 32 word"
  have f0: "u32_at ?buf (length pre) = r_wd r"
    using u32_at_enc32 [of pre "r_wd r"
        "enc32 (r_mask r) @ enc32 (r_cookie r) @ enc32 ?len @ r_name r @ post"]
    by (simp add: encode_event_def)
  have f1: "u32_at ?buf (length pre + 4) = r_mask r"
    using u32_at_enc32 [of "pre @ enc32 (r_wd r)" "r_mask r"
        "enc32 (r_cookie r) @ enc32 ?len @ r_name r @ post"]
    by (simp add: encode_event_def length_enc32)
  have f2: "u32_at ?buf (length pre + 8) = r_cookie r"
    using u32_at_enc32 [of "pre @ enc32 (r_wd r) @ enc32 (r_mask r)" "r_cookie r"
        "enc32 ?len @ r_name r @ post"]
    by (simp add: encode_event_def length_enc32)
  have f3: "u32_at ?buf (length pre + 12) = ?len"
    using u32_at_enc32 [of "pre @ enc32 (r_wd r) @ enc32 (r_mask r) @ enc32 (r_cookie r)" ?len
        "r_name r @ post"]
    by (simp add: encode_event_def length_enc32)
  show ?thesis
    by (simp add: event_at_def sizeof_inotify_event_def f0 f1 f2 f3 length_encode_event)
qed

lemma event_name_encoded:
  assumes "NUL \<in> set (r_name r)"
  shows "event_name (pre @ encode_event r @ post) (int (length pre)) = Inr (c_str (r_name r))"
proof -
  have "drop (length pre + 16) (pre @ encode_event r @ post) = r_name r @ post"
    by (simp add: encode_event_def length_enc32)
  moreover have "c_str (r_name r @ post) = c_str (r_name r)"
    unfolding c_str_def using assms by (rule takeWhile_append1) simp
  ultimately show ?thesis
    using assms by (simp add: event_name_def sizeof_inotify_event_def nat_add_distrib)
qed

lemma next_offset_encoded:
  assumes "length pre + 16 + length (r_name r) < 2 ^ 31"
  shows "next_offset (int (length pre))
      \<lparr>ev_wd = w, ev_mask = m, ev_cookie = c, ev_len = word_of_nat (length (r_name r))\<rparr>
    = int (length (pre @ encode_event r))"
proof -
  let ?ev = "\<lparr>ev_wd = w, ev_mask = m, ev_cookie = c,
      ev_len = word_of_nat (length (r_name r))\<rparr>"
  have "length (r_name r) < 2 ^ 32"
    using assms by simp
  then have "uint (word_of_nat (length (r_name r)) :: 32 word) = int (length (r_name r))"
    by (rule uint32)
  then have sum: "int (length pre) + sizeof_inotify_event + uint (ev_len ?ev)
      = int (length pre + 16 + length (r_name r))"
    by (simp add: sizeof_inotify_event_def)
  have "- (2 ^ 31) \<le> int (length pre + 16 + length (r_name r))"
    by simp
  moreover have "int (length pre + 16 + length (r_name r)) < 2 ^ 31"
    using assms by simp
  ultimately have "sint (word_of_int (int (length pre + 16 + length (r_name r))) :: 32 word)
      = int (length pre + 16 + length (r_name r))"
    by (rule sint32)
  then show ?thesis
    unfolding next_offset_def sum by (simp add: length_encode_event)
qed

lemma len_positive:
  assumes "n < 2 ^ 32"
  shows "(0 < (word_of_nat n :: 32 word)) = (n \<noteq> 0)"
proof -
  have "unat (word_of_nat n :: 32 word) = n"
    using assms by (simp add: unat_of_nat)
  then show ?thesis
    by (simp add: word_less_nat_alt)
qed

lemma report_event_encoded:
  assumes "well_formed r" and "length (r_name r) < 2 ^ 32"
  shows "report_event username (pre @ encode_event r @ post) (int (length pre))
      \<lparr>ev_wd = sint (r_wd r), ev_mask = r_mask r, ev_cookie = r_cookie r,
        ev_len = word_of_nat (length (r_name r))\<rparr> d
    = Inr (if r_name r = [] then
            [\<lparr>lc_username = username,
              lc_message = snprintf 1024 (path d @ '': '' @ event_type (r_mask r)),
              lc_priority = LOG_INFO\<rparr>]
          else if c_str (r_name r) = ''system_logger.log'' then []
          else
            [\<lparr>lc_username = username,
              lc_message = snprintf 1024
                (path d @ '': '' @ event_type (r_mask r) @ '' of file '' @ c_str (r_name r)),
              lc_priority = LOG_INFO\<rparr>])"
proof (cases "r_name r = []")
  case True
  then show ?thesis by (simp add: report_event_def)
next
  case False
  with assms(1) have "NUL \<in> set (r_name r)"
    by (simp add: well_formed_def)
  from event_name_encoded [OF this, of pre post] False show ?thesis
    by (simp add: report_event_def len_positive [OF assms(2)])
qed

lemma scan_watch_dirs_encoded:
  assumes "well_formed r" and "length (r_name r) < 2 ^ 32"
  shows "scan_watch_dirs username (pre @ encode_event r @ post) (int (length pre))
      \<lparr>ev_wd = sint (r_wd r), ev_mask = r_mask r, ev_cookie = r_cookie r,
        ev_len = word_of_nat (length (r_name r))\<rparr> dirs
    = Inr (expected_calls username dirs r)"
proof (induction dirs)
  case Nil
  then show ?case by (simp add: expected_calls_def)
next
  case (Cons d dirs)
  show ?case
  proof (cases "wd d = sint (r_wd r)")
    case True
    then show ?thesis
      by (simp add: report_event_encoded [OF assms] expected_calls_def)
  next
    case False
    with Cons show ?thesis
      by (simp add: expected_calls_def)
  qed
qed

lemma event_loop_encoded:
  assumes "\<forall>r \<in> set recs. well_formed r"
    and "length (pre @ concat (map encode_event recs)) < 2 ^ 31"
  shows "event_loop username dirs (pre @ concat (map encode_event recs)) (int (length pre)) out
    = Some (Inr (out @ concat (map (expected_calls username dirs) recs)))"
  using assms
proof (induction recs arbitrary: pre out)
  case Nil
  then show ?case
    by (subst event_loop.simps) simp
next
  case (Cons r recs)
  let ?post = "concat (map encode_event recs)"
  let ?buf = "pre @ encode_event r @ ?post"
  let ?ev = "\<lparr>ev_wd = sint (r_wd r), ev_mask = r_mask r, ev_cookie = r_cookie r,
        ev_len = word_of_nat (length (r_name r))\<rparr>"
  from Cons.prems have wf: "well_formed r" and wfs: "\<forall>r \<in> set recs. well_formed r"
    by simp_all
  from Cons.prems(2) have bound: "length pre + 16 + length (r_name r) < 2 ^ 31"
    by (simp add: length_encode_event)
  then have small: "length (r_name r) < 2 ^ 32"
    by simp
  from Cons.prems(2) have bound': "length ((pre @ encode_event r) @ ?post) < 2 ^ 31"
    by simp
  have inside: "int (length pre) < int (length ?buf)"
    by (simp add: length_encode_event)
  have "event_loop username dirs ?buf (int (length pre)) out
      = event_loop username dirs ?buf (next_offset (int (length pre)) ?ev)
          (out @ expected_calls username dirs r)"
    using inside
    by (subst event_loop.simps)
       (simp add: event_at_encoded scan_watch_dirs_encoded [OF wf small])
  also have "\<dots> = event_loop username dirs ((pre @ encode_event r) @ ?post)
      (int (length (pre @ encode_event r))) (out @ expected_calls username dirs r)"
    by (simp add: next_offset_encoded [OF bound])
  also have "\<dots> = Some (Inr ((out @ expected_calls username dirs r)
      @ concat (map (expected_calls username dirs) recs)))"
    by (rule Cons.IH [OF wfs bound'])
  finally show ?case by simp
qed


lemma check_directory_changes_encoded:
  assumes "\<forall>r \<in> set recs. well_formed r"
    and "length (concat (map encode_event recs)) \<le> 4096"
    and "0 \<le> inotify_fd g"
  shows "check_directory_changes g username (ReadBytes (concat (map encode_event recs)))
    = Some (Inr (concat (map (expected_calls username (watch_dirs g)) recs)))"
proof (cases "recs = []")
  case True
  with assms(3) show ?thesis
    by (simp add: check_directory_changes_def)
next
  case False
  then obtain r rs where recs: "recs = r # rs"
    by (cases recs) auto
  have nonempty: "0 < length (concat (map encode_event recs))"
    unfolding recs by (simp add: length_encode_event)
  from assms(2) have bound: "length ([] @ concat (map encode_event recs)) < 2 ^ 31"
    by simp
  from event_loop_encoded [OF assms(1) bound, of username "watch_dirs g" "[]"]
  have "event_loop username (watch_dirs g) (concat (map encode_event recs)) 0 []
      = Some (Inr (concat (map (expected_calls username (watch_dirs g)) recs)))"
    by simp
  with assms(2,3) nonempty show ?thesis
    by (simp add: check_directory_changes_def Let_def)
qed

lemma expected_calls_one:
  assumes "\<exists>d \<in> set dirs. wd d = sint (r_wd r)"
    and "r_name r = [] \<or> c_str (r_name r) \<noteq> ''system_logger.log''"
  shows "length (expected_calls username dirs r) = 1"
proof -
  from assms(1) obtain d where "find (\<lambda>d. wd d = sint (r_wd r)) dirs = Some d"
    by (cases "find (\<lambda>d. wd d = sint (r_wd r)) dirs") (auto simp: find_None_iff)
  with assms(2) show ?thesis
    by (auto simp: expected_calls_def)
qed

lemma record_at_offset:
  assumes "k < length recs"
    and "length (concat (map encode_event recs)) < 2 ^ 31"
  shows "event_at (concat (map encode_event recs))
        (int (length (concat (map encode_event (take k recs)))))
      = Inr \<lparr>ev_wd = sint (r_wd (recs ! k)), ev_mask = r_mask (recs ! k),
             ev_cookie = r_cookie (recs ! k),
             ev_len = word_of_nat (length (r_name (recs ! k)))\<rparr>
    \<and> next_offset (int (length (concat (map encode_event (take k recs)))))
        \<lparr>ev_wd = sint (r_wd (recs ! k)), ev_mask = r_mask (recs ! k),
          ev_cookie = r_cookie (recs ! k),
          ev_len = word_of_nat (length (r_name (recs ! k)))\<rparr>
      = int (length (concat (map encode_event (take k recs)))) + sizeof_inotify_event
          + int (length (r_name (recs ! k)))"
proof -
  let ?pre = "concat (map encode_event (take k recs))"
  let ?post = "concat (map encode_event (drop (Suc k) recs))"
  have split: "concat (map encode_event recs) = ?pre @ encode_event (recs ! k) @ ?post"
    using id_take_nth_drop [OF assms(1)]
    by (metis concat.simps(2) concat_append list.simps(9) map_append)
  from assms(2) have "length ?pre + 16 + length (r_name (recs ! k)) < 2 ^ 31"
    unfolding split by (simp add: length_encode_event)
  from next_offset_encoded [OF this] event_at_encoded [of ?pre "recs ! k" ?post]
  show ?thesis
    unfolding split by (simp add: length_encode_event sizeof_inotify_event_def)
qed


lemma concat_singletons:
  "\<forall>x \<in> set xs. length (f x) = 1 \<Longrightarrow> length (concat (map f xs)) = length xs"
  by (induction xs) simp_all

lemma scan_watch_dirs_unmatched:
  "\<forall>d \<in> set dirs. wd d \<noteq> ev_wd event \<Longrightarrow>
   scan_watch_dirs username buffer i event dirs = Inr []"
  by (induction dirs) simp_all

subsection \<open>The claims about the decoder\<close>

text \<open>
  C1, as the claim states it, fails: handed a buffer of declared length 8 (a header cut
  after its second field), the decoder enters the loop and reads the 16 bytes of a header,
  past the declared length.
\<close>

theorem decode_truncated_counterexample:
  "check_directory_changes watching ''root''
     (ReadBytes [CHR 0x07, CHR 0x00, CHR 0x00, CHR 0x00, CHR 0x00, CHR 0x01, CHR 0x00, CHR 0x00])
   = Some (Inl ReadPastLength)"
proof -
  have "event_loop ''root'' (watch_dirs watching)
      [CHR 0x07, CHR 0x00, CHR 0x00, CHR 0x00, CHR 0x00, CHR 0x01, CHR 0x00, CHR 0x00] 0 []
    = Some (Inl ReadPastLength)"
    by (subst event_loop.simps) (simp add: event_at_def sizeof_inotify_event_def)
  then show ?thesis
    by (simp add: check_directory_changes_def watching_def initial_globals_def)
qed

text \<open>
  C1, amended. For every buffer that consists of N well-formed records back to back, of
  declared length at most 4096: the decoder ends, reads nothing outside the declared
  bytes, and makes for each record in turn the calls expected for its handle, its kind
  and its name; at the offset of each record it reads that record's header and advances
  by exactly header size plus name length, records with a zero-length name included;
  and when every record belongs to a watch target and none names the log file, exactly
  N records are logged.
\<close>

theorem decode_well_formed_records:
  assumes "\<forall>r \<in> set recs. well_formed r"
    and "length (concat (map encode_event recs)) \<le> 4096"
    and "0 \<le> inotify_fd g"
  shows "check_directory_changes g username (ReadBytes (concat (map encode_event recs)))
      = Some (Inr (concat (map (expected_calls username (watch_dirs g)) recs)))
    \<and> (\<forall>k < length recs.
          event_at (concat (map encode_event recs))
              (int (length (concat (map encode_event (take k recs)))))
            = Inr \<lparr>ev_wd = sint (r_wd (recs ! k)), ev_mask = r_mask (recs ! k),
                   ev_cookie = r_cookie (recs ! k),
                   ev_len = word_of_nat (length (r_name (recs ! k)))\<rparr>
          \<and> next_offset (int (length (concat (map encode_event (take k recs)))))
              \<lparr>ev_wd = sint (r_wd (recs ! k)), ev_mask = r_mask (recs ! k),
                ev_cookie = r_cookie (recs ! k),
                ev_len = word_of_nat (length (r_name (recs ! k)))\<rparr>
            = int (length (concat (map encode_event (take k recs)))) + sizeof_inotify_event
                + int (length (r_name (recs ! k))))
    \<and> ((\<forall>r \<in> set recs.
           (\<exists>d \<in> set (watch_dirs g). wd d = sint (r_wd r))
           \<and> (r_name r = [] \<or> c_str (r_name r) \<noteq> ''system_logger.log''))
        \<longrightarrow> length (concat (map (expected_calls username (watch_dirs g)) recs))
              = length recs)"
proof (intro conjI allI impI)
  show "check_directory_changes g username (ReadBytes (concat (map encode_event recs)))
      = Some (Inr (concat (map (expected_calls username (watch_dirs g)) recs)))"
    using assms by (rule check_directory_changes_encoded)
next
  fix k
  assume k: "k < length recs"
  from assms(2) have "length (concat (map encode_event recs)) < 2 ^ 31"
    by simp
  from record_at_offset [OF k this]
  show "event_at (concat (map encode_event recs))
              (int (length (concat (map encode_event (take k recs)))))
            = Inr \<lparr>ev_wd = sint (r_wd (recs ! k)), ev_mask = r_mask (recs ! k),
                   ev_cookie = r_cookie (recs ! k),
                   ev_len = word_of_nat (length (r_name (recs ! k)))\<rparr>"
    and "next_offset (int (length (concat (map encode_event (take k recs)))))
              \<lparr>ev_wd = sint (r_wd (recs ! k)), ev_mask = r_mask (recs ! k),
                ev_cookie = r_cookie (recs ! k),
                ev_len = word_of_nat (length (r_name (recs ! k)))\<rparr>
            = int (length (concat (map encode_event (take k recs)))) + sizeof_inotify_event
                + int (length (r_name (recs ! k)))"
    by simp_all
next
  assume "\<forall>r \<in> set recs.
           (\<exists>d \<in> set (watch_dirs g). wd d = sint (r_wd r))
           \<and> (r_name r = [] \<or> c_str (r_name r) \<noteq> ''system_logger.log'')"
  then have "\<forall>r \<in> set recs. length (expected_calls username (watch_dirs g) r) = 1"
    by (simp add: expected_calls_one)
  then show "length (concat (map (expected_calls username (watch_dirs g)) recs)) = length recs"
    by (rule concat_singletons)
qed

theorem decode_well_formed_records_witness:
  "check_directory_changes watching ''root''
     (ReadBytes
       [CHR 0x07, CHR 0x00, CHR 0x00, CHR 0x00, CHR 0x00, CHR 0x01, CHR 0x00, CHR 0x00,
        CHR 0x00, CHR 0x00, CHR 0x00, CHR 0x00, CHR 0x08, CHR 0x00, CHR 0x00, CHR 0x00,
        CHR ''f'', CHR ''o'', CHR ''o'', CHR ''.'', CHR ''t'', CHR ''x'', CHR ''t'', CHR 0x00,
        CHR 0x01, CHR 0x00, CHR 0x00, CHR 0x00, CHR 0x00, CHR 0x02, CHR 0x00, CHR 0x00,
        CHR 0x00, CHR 0x00, CHR 0x00, CHR 0x00, CHR 0x00, CHR 0x00, CHR 0x00, CHR 0x00])
   = Some (Inr [\<lparr>lc_username = ''root'', lc_message = ''/tmp: creation of file foo.txt'',
                  lc_priority = 6\<rparr>,
                \<lparr>lc_username = ''root'', lc_message = ''/etc: deletion'',
                  lc_priority = 6\<rparr>])"
proof -
  let ?r1 = "\<lparr>r_wd = 7, r_mask = IN_CREATE, r_cookie = 0, r_name = ''foo.txt'' @ [NUL]\<rparr>"
  let ?r2 = "\<lparr>r_wd = 1, r_mask = IN_DELETE, r_cookie = 0, r_name = []\<rparr>"
  have bytes: "concat (map encode_event [?r1, ?r2]) =
      [CHR 0x07, CHR 0x00, CHR 0x00, CHR 0x00, CHR 0x00, CHR 0x01, CHR 0x00, CHR 0x00,
       CHR 0x00, CHR 0x00, CHR 0x00, CHR 0x00, CHR 0x08, CHR 0x00, CHR 0x00, CHR 0x00,
       CHR ''f'', CHR ''o'', CHR ''o'', CHR ''.'', CHR ''t'', CHR ''x'', CHR ''t'', CHR 0x00,
       CHR 0x01, CHR 0x00, CHR 0x00, CHR 0x00, CHR 0x00, CHR 0x02, CHR 0x00, CHR 0x00,
       CHR 0x00, CHR 0x00, CHR 0x00, CHR 0x00, CHR 0x00, CHR 0x00, CHR 0x00, CHR 0x00]"
    by (simp add: encode_event_def enc32_def IN_CREATE_def IN_DELETE_def NUL_def char_of_def
        bit_0)
  have wf: "\<forall>r \<in> set [?r1, ?r2]. well_formed r"
    by (simp add: well_formed_def)
  have len: "length (concat (map encode_event [?r1, ?r2])) \<le> 4096"
    unfolding bytes by simp
  have fd: "0 \<le> inotify_fd watching"
    by (simp add: watching_def)
  have calls: "concat (map (expected_calls ''root'' (watch_dirs watching)) [?r1, ?r2])
      = [\<lparr>lc_username = ''root'', lc_message = ''/tmp: creation of file foo.txt'',
           lc_priority = 6\<rparr>,
         \<lparr>lc_username = ''root'', lc_message = ''/etc: deletion'', lc_priority = 6\<rparr>]"
    by (simp add: expected_calls_def watching_def event_type_def IN_CREATE_def IN_DELETE_def
        c_str_def NUL_def snprintf_def LOG_INFO_def)
  from decode_well_formed_records [OF wf len fd, of "''root''"] show ?thesis
    unfolding bytes calls by blast
qed

text \<open>
  C2. An event for a file named \<open>system_logger.log\<close> is dropped in whichever watched
  directory it occurs: for the target \<open>/tmp\<close> (handle 7), the record of the creation of
  \<open>system_logger.log\<close> produces no call of the log writer.
\<close>

theorem log_name_in_other_directory_dropped:
  "check_directory_changes watching ''root''
     (ReadBytes (encode_event
        \<lparr>r_wd = 7, r_mask = IN_CREATE, r_cookie = 0,
          r_name = ''system_logger.log'' @ [NUL]\<rparr>))
   = Some (Inr [])
   \<and> find (\<lambda>d. wd d = 7) (watch_dirs watching)
       = Some \<lparr>path = ''/tmp'', wd = 7, last_check = 1000\<rparr>"
proof -
  let ?r = "\<lparr>r_wd = 7, r_mask = IN_CREATE, r_cookie = 0,
      r_name = ''system_logger.log'' @ [NUL]\<rparr>"
  have wf: "\<forall>r \<in> set [?r]. well_formed r"
    by (simp add: well_formed_def)
  have len: "length (concat (map encode_event [?r])) \<le> 4096"
    by (simp add: length_encode_event)
  have fd: "0 \<le> inotify_fd watching"
    by (simp add: watching_def)
  have "expected_calls ''root'' (watch_dirs watching) ?r = []"
    by (simp add: expected_calls_def watching_def c_str_def NUL_def)
  with check_directory_changes_encoded [OF wf len fd, of "''root''"]
  have "check_directory_changes watching ''root'' (ReadBytes (encode_event ?r)) = Some (Inr [])"
    by simp
  then show ?thesis
    by (simp add: watching_def)
qed

text \<open>
  C10. When the loop stands at a record whose handle equals the \<^verbatim>\<open>wd\<close> of no entry of
  \<^verbatim>\<open>watch_dirs\<close>, no call of the log writer is made for it, the cursor moves past the
  record (by header size plus name length), and the loop goes on from there with the
  records that follow.
\<close>

theorem unmatched_event_skipped:
  assumes "i < int (length buffer)"
    and "event_at buffer i = Inr event"
    and "\<forall>d \<in> set dirs. wd d \<noteq> ev_wd event"
    and "i + sizeof_inotify_event + uint (ev_len event) < 2 ^ 31"
  shows "scan_watch_dirs username buffer i event dirs = Inr []
    \<and> next_offset i event = i + sizeof_inotify_event + uint (ev_len event)
    \<and> event_loop username dirs buffer i out
        = event_loop username dirs buffer (i + sizeof_inotify_event + uint (ev_len event)) out"
proof -
  have scan: "scan_watch_dirs username buffer i event dirs = Inr []"
    using assms(3) by (rule scan_watch_dirs_unmatched)
  from assms(2) have "0 \<le> i"
    by (auto simp: event_at_def split: if_splits)
  then have "- (2 ^ 31) \<le> i + sizeof_inotify_event + uint (ev_len event)"
    by (simp add: sizeof_inotify_event_def)
  from sint32 [OF this assms(4)]
  have nxt: "next_offset i event = i + sizeof_inotify_event + uint (ev_len event)"
    by (simp add: next_offset_def)
  have "event_loop username dirs buffer i out
      = event_loop username dirs buffer (next_offset i event) out"
    using assms(1,2) scan by (subst event_loop.simps) simp
  with scan nxt show ?thesis by simp
qed

theorem unmatched_event_skipped_witness:
  "event_loop ''root'' (watch_dirs watching)
     (encode_event \<lparr>r_wd = 9, r_mask = IN_MODIFY, r_cookie = 0,
                    r_name = ''a.txt'' @ [NUL, NUL, NUL]\<rparr>
      @ encode_event \<lparr>r_wd = 7, r_mask = IN_CREATE, r_cookie = 0,
                      r_name = ''foo.txt'' @ [NUL]\<rparr>) 0 []
   = Some (Inr [\<lparr>lc_username = ''root'', lc_message = ''/tmp: creation of file foo.txt'',
                  lc_priority = 6\<rparr>])"
proof -
  let ?r0 = "\<lparr>r_wd = 9, r_mask = IN_MODIFY, r_cookie = 0,
      r_name = ''a.txt'' @ [NUL, NUL, NUL]\<rparr>"
  let ?r1 = "\<lparr>r_wd = 7, r_mask = IN_CREATE, r_cookie = 0, r_name = ''foo.txt'' @ [NUL]\<rparr>"
  let ?buf = "encode_event ?r0 @ encode_event ?r1"
  let ?ev = "\<lparr>ev_wd = sint (r_wd ?r0), ev_mask = r_mask ?r0, ev_cookie = r_cookie ?r0,
      ev_len = word_of_nat (length (r_name ?r0))\<rparr>"
  have inside: "0 < int (length ?buf)"
    by (simp add: length_encode_event)
  have ev: "event_at ?buf 0 = Inr ?ev"
    using event_at_encoded [of "[]" ?r0 "encode_event ?r1"] by simp
  have unmatched: "\<forall>d \<in> set (watch_dirs watching). wd d \<noteq> ev_wd ?ev"
    by (simp add: watching_def)
  have fits: "0 + sizeof_inotify_event + uint (ev_len ?ev) < 2 ^ 31"
    by (simp add: sizeof_inotify_event_def)
  from unmatched_event_skipped [OF inside ev unmatched fits, of "''root''" "[]"]
  have step: "event_loop ''root'' (watch_dirs watching) ?buf 0 []
      = event_loop ''root'' (watch_dirs watching) ?buf 24 []"
    by (simp add: sizeof_inotify_event_def)
  have wf: "\<forall>r \<in> set [?r1]. well_formed r"
    by (simp add: well_formed_def)
  have bound: "length (encode_event ?r0 @ concat (map encode_event [?r1])) < 2 ^ 31"
    by (simp add: length_encode_event)
  have calls: "expected_calls ''root'' (watch_dirs watching) ?r1
      = [\<lparr>lc_username = ''root'', lc_message = ''/tmp: creation of file foo.txt'',
           lc_priority = 6\<rparr>]"
    by (simp add: expected_calls_def watching_def event_type_def IN_CREATE_def
        c_str_def NUL_def snprintf_def LOG_INFO_def)
  from event_loop_encoded [OF wf bound, of "''root''" "watch_dirs watching" "[]"]
  have "event_loop ''root'' (watch_dirs watching) ?buf 24 []
      = Some (Inr (expected_calls ''root'' (watch_dirs watching) ?r1))"
    by (simp add: length_encode_event)
  with step calls show ?thesis by simp
qed

end
